theory Spec2Isabelle
  imports Main "HOL-Library.Word" "HOL-Library.Sublist" "HOL-Library.AList"
begin

unbundle bit_operations_syntax

section \<open>Errors and file information of the host\<close>

text \<open>
  The filesystem API of \<^verbatim>\<open>internal/os/filesystem/api.go\<close> is a thin layer over
  Go's \<^verbatim>\<open>os\<close> and \<^verbatim>\<open>os/exec\<close> packages. The host calls it makes
  (\<^verbatim>\<open>os.Lstat\<close>, \<^verbatim>\<open>os.Readlink\<close>, \<^verbatim>\<open>os.Environ\<close>, \<^verbatim>\<open>cmd.CombinedOutput\<close>)
  are parameters of the embedded functions: a function of the API is modelled for every
  behaviour the host may show, errors included.

  A Go \<^verbatim>\<open>error\<close> is either the \<^verbatim>\<open>*PathError\<close> of a failed system call (operation,
  path, error number) or an error made from a message (\<^verbatim>\<open>errors.New\<close>, \<^verbatim>\<open>fmt.Errorf\<close>,
  the errors of \<^verbatim>\<open>os/exec\<close>). A result pair \<^verbatim>\<open>(bool, error)\<close> is a pair whose second
  component is \<open>None\<close> for \<^verbatim>\<open>nil\<close>.
\<close>

datatype errno = ENOENT | ENOTDIR | EEXIST | ENOTEMPTY | EINVAL | EACCES | EIO | EBUSY

datatype error = PathError string string errno | ErrorString string

fun errno_text :: "errno \<Rightarrow> string" where
  "errno_text ENOENT = ''no such file or directory''"
| "errno_text ENOTDIR = ''not a directory''"
| "errno_text EEXIST = ''file exists''"
| "errno_text ENOTEMPTY = ''directory not empty''"
| "errno_text EINVAL = ''invalid argument''"
| "errno_text EACCES = ''permission denied''"
| "errno_text EIO = ''input/output error''"
| "errno_text EBUSY = ''device or resource busy''"

text \<open>The message of an error, as \<^verbatim>\<open>%v\<close> prints it.\<close>

fun Error :: "error \<Rightarrow> string" where
  "Error (PathError op path e) = op @ '' '' @ path @ '': '' @ errno_text e"
| "Error (ErrorString s) = s"

text \<open>\<^verbatim>\<open>os.IsNotExist\<close>: the error of a system call that found no entry.\<close>

fun IsNotExist :: "error \<Rightarrow> bool" where
  "IsNotExist (PathError op path e) = (e = ENOENT)"
| "IsNotExist (ErrorString s) = False"

type_synonym FileMode = "32 word"

definition ModeDir :: FileMode where
  "ModeDir = push_bit 31 1"

definition ModeSymlink :: FileMode where
  "ModeSymlink = push_bit 27 1"

record FileInfo =
  Name :: string
  Mode :: FileMode

type_synonym lstat_fn = "string \<Rightarrow> error + FileInfo"
type_synonym readlink_fn = "string \<Rightarrow> error + string"

section \<open>Existence and mount points\<close>

text \<open>
  \<^verbatim>\<open>
  func pathExists(path string) (bool, error) {
      _, err := os.Lstat(path)
      if err == nil { return true, nil }
      if os.IsNotExist(err) { return false, nil }
      return false, err
  }
  \<close>
\<close>

definition pathExists :: "lstat_fn \<Rightarrow> string \<Rightarrow> bool \<times> error option" where
  "pathExists lstat path =
     (case lstat path of
        Inr _ \<Rightarrow> (True, None)
      | Inl err \<Rightarrow> if IsNotExist err then (False, None) else (False, Some err))"

definition PathExists :: "lstat_fn \<Rightarrow> string \<Rightarrow> bool \<times> error option" where
  "PathExists lstat path = pathExists lstat path"

text \<open>
  \<^verbatim>\<open>IsMountPoint\<close>: \<^verbatim>\<open>os.Lstat\<close> on the path, and for a symbolic link
  \<^verbatim>\<open>os.Readlink\<close> followed by \<^verbatim>\<open>pathExists\<close> on the link's target. An error of
  \<^verbatim>\<open>Lstat\<close> or of \<^verbatim>\<open>pathExists\<close> is returned as it is, an error of \<^verbatim>\<open>Readlink\<close>
  wrapped by \<^verbatim>\<open>fmt.Errorf("readlink error: %v", err)\<close>.
\<close>

definition IsMountPoint :: "lstat_fn \<Rightarrow> readlink_fn \<Rightarrow> string \<Rightarrow> bool \<times> error option" where
  "IsMountPoint lstat readlink tgt =
     (case lstat tgt of
        Inl err \<Rightarrow> (False, Some err)
      | Inr stat \<Rightarrow>
          if Mode stat AND ModeSymlink \<noteq> 0 then
            (case readlink tgt of
               Inl err \<Rightarrow> (False, Some (ErrorString (''readlink error: '' @ Error err)))
             | Inr target \<Rightarrow>
                 (case pathExists lstat target of
                    (exists, Some err) \<Rightarrow> (False, Some err)
                  | (exists, None) \<Rightarrow> (exists, None)))
          else (False, None))"

subsection \<open>The vocabulary of the specification\<close>

text \<open>
  A path exists when \<^verbatim>\<open>Lstat\<close> finds an entry for it, and does not exist when \<^verbatim>\<open>Lstat\<close>
  fails with a not-found error; it is a symbolic link when the entry's mode has
  \<^verbatim>\<open>ModeSymlink\<close>. The target of a link is the path \<^verbatim>\<open>Readlink\<close> returns for it.
\<close>

definition path_present :: "lstat_fn \<Rightarrow> string \<Rightarrow> bool" where
  "path_present lstat p = (case lstat p of Inr _ \<Rightarrow> True | Inl _ \<Rightarrow> False)"

definition path_absent :: "lstat_fn \<Rightarrow> string \<Rightarrow> bool" where
  "path_absent lstat p = (case lstat p of Inr _ \<Rightarrow> False | Inl e \<Rightarrow> IsNotExist e)"

definition is_symlink :: "lstat_fn \<Rightarrow> string \<Rightarrow> bool" where
  "is_symlink lstat p =
     (case lstat p of Inr fi \<Rightarrow> Mode fi AND ModeSymlink \<noteq> 0 | Inl _ \<Rightarrow> False)"

definition target_present :: "lstat_fn \<Rightarrow> readlink_fn \<Rightarrow> string \<Rightarrow> bool" where
  "target_present lstat readlink p =
     (case readlink p of Inr t \<Rightarrow> path_present lstat t | Inl _ \<Rightarrow> False)"

definition target_absent :: "lstat_fn \<Rightarrow> readlink_fn \<Rightarrow> string \<Rightarrow> bool" where
  "target_absent lstat readlink p =
     (case readlink p of Inr t \<Rightarrow> path_absent lstat t | Inl _ \<Rightarrow> False)"

definition target_dangling_link :: "lstat_fn \<Rightarrow> readlink_fn \<Rightarrow> string \<Rightarrow> bool" where
  "target_dangling_link lstat readlink p =
     (case readlink p of
        Inr t \<Rightarrow> is_symlink lstat t \<and> target_absent lstat readlink t
      | Inl _ \<Rightarrow> False)"

subsection \<open>A sample host\<close>

text \<open>
  Six paths: a link to a live directory, that directory, a dangling link, a link to the
  dangling link, a plain directory, and a path whose \<^verbatim>\<open>Lstat\<close> is refused. Every
  other path is missing.
\<close>

definition link_info :: "string \<Rightarrow> FileInfo" where
  "link_info n = \<lparr>Name = n, Mode = ModeSymlink OR 0x1FF\<rparr>"

definition dir_info :: "string \<Rightarrow> FileInfo" where
  "dir_info n = \<lparr>Name = n, Mode = ModeDir OR 0x1ED\<rparr>"

definition sample_lstat :: lstat_fn where
  "sample_lstat p =
     (if p = ''/mnt/vol'' then Inr (link_info ''vol'')
      else if p = ''/dev/disk1'' then Inr (dir_info ''disk1'')
      else if p = ''/mnt/gone'' then Inr (link_info ''gone'')
      else if p = ''/mnt/chain'' then Inr (link_info ''chain'')
      else if p = ''/mnt/plain'' then Inr (dir_info ''plain'')
      else if p = ''/mnt/locked'' then Inl (PathError ''lstat'' p EACCES)
      else Inl (PathError ''lstat'' p ENOENT))"

definition sample_readlink :: readlink_fn where
  "sample_readlink p =
     (if p = ''/mnt/vol'' then Inr ''/dev/disk1''
      else if p = ''/mnt/gone'' then Inr ''/dev/none''
      else if p = ''/mnt/chain'' then Inr ''/mnt/gone''
      else Inl (PathError ''readlink'' p EINVAL))"

section \<open>Path validation through the external utility\<close>

text \<open>
  \<^verbatim>\<open>exec.Command(name, arg...)\<close> makes a command whose argument vector is the name
  followed by the arguments and whose environment is not set; \<^verbatim>\<open>cmd.CombinedOutput()\<close>
  runs it on the host and returns what it wrote to standard output and standard error,
  with an error when it could not be started or did not exit successfully. The run is a
  parameter.
\<close>

record Cmd =
  Path :: string
  Args :: "string list"
  Env :: "string list"

type_synonym run_fn = "Cmd \<Rightarrow> string \<times> error option"

definition Command :: "string \<Rightarrow> string list \<Rightarrow> Cmd" where
  "Command name arg = \<lparr>Path = name, Args = name # arg, Env = []\<rparr>"

text \<open>
  \<^verbatim>\<open>strings.ToLower\<close> on the bytes of the output: an ASCII capital is moved by
  \<^verbatim>\<open>'a' - 'A'\<close>, every other byte is kept. (On text outside ASCII Go maps whole
  code points; none of them maps to one of the letters \<^verbatim>\<open>t\<close>, \<^verbatim>\<open>r\<close>, \<^verbatim>\<open>u\<close>,
  \<^verbatim>\<open>e\<close>, so the test for the prefix \<^verbatim>\<open>true\<close> sees the same.)
  \<^verbatim>\<open>strings.HasPrefix(s, prefix)\<close> is
  \<^verbatim>\<open>len(s) >= len(prefix) && s[:len(prefix)] == prefix\<close>.
\<close>

definition ToLower_byte :: "char \<Rightarrow> char" where
  "ToLower_byte c =
     (if of_char (CHR ''A'') \<le> (of_char c :: nat) \<and> (of_char c :: nat) \<le> of_char (CHR ''Z'')
      then char_of ((of_char c :: nat) + (of_char (CHR ''a'') - of_char (CHR ''A'')))
      else c)"

definition ToLower :: "string \<Rightarrow> string" where
  "ToLower s = map ToLower_byte s"

definition HasPrefix :: "string \<Rightarrow> string \<Rightarrow> bool" where
  "HasPrefix s pre = (length s \<ge> length pre \<and> take (length pre) s = pre)"

text \<open>
  The command of \<^verbatim>\<open>pathValid\<close>:
  \<^verbatim>\<open>
  cmd := exec.Command("powershell", "/c", `Test-Path $Env:remotepath`)
  cmd.Env = append(os.Environ(), fmt.Sprintf("remotepath=%s", path))
  \<close>
\<close>

definition pathValid_cmd :: "string list \<Rightarrow> string \<Rightarrow> Cmd" where
  "pathValid_cmd environ path =
     (Command ''powershell'' [''/c'', ''Test-Path $Env:remotepath''])
       \<lparr>Env := environ @ [''remotepath='' @ path]\<rparr>"

text \<open>
  \<^verbatim>\<open>
  output, err := cmd.CombinedOutput()
  if err != nil {
      return false, fmt.Errorf("returned output: %s, error: %v", string(output), err)
  }
  return strings.HasPrefix(strings.ToLower(string(output)), "true"), nil
  \<close>
\<close>

definition pathValid :: "string list \<Rightarrow> run_fn \<Rightarrow> string \<Rightarrow> bool \<times> error option" where
  "pathValid environ CombinedOutput path =
     (let cmd = pathValid_cmd environ path;
          (output, err) = CombinedOutput cmd
      in case err of
           Some e \<Rightarrow>
             (False, Some (ErrorString
                (''returned output: '' @ output @ '', error: '' @ Error e)))
         | None \<Rightarrow> (HasPrefix (ToLower output) ''true'', None))"

definition PathValid :: "string list \<Rightarrow> run_fn \<Rightarrow> string \<Rightarrow> bool \<times> error option" where
  "PathValid environ CombinedOutput path = pathValid environ CombinedOutput path"

text \<open>
  In the words of the specification, a result of the utility can be parsed when it is one
  of its two answers, whatever their case and whatever follows them.
\<close>

definition spec_parseable :: "string \<Rightarrow> bool" where
  "spec_parseable out \<longleftrightarrow>
     HasPrefix (ToLower out) ''true'' \<or> HasPrefix (ToLower out) ''false''"

subsection \<open>A sample utility\<close>

text \<open>
  A run that answers like the utility: it reads the variable \<^verbatim>\<open>remotepath\<close> from the
  last entry of the environment and nothing from the command line. One path makes it
  print a warning and exit successfully, the empty path makes it fail.
\<close>

definition crlf :: string where
  "crlf = [CHR 0x0D, CHR 0x0A]"

definition sample_run :: run_fn where
  "sample_run cmd =
     (if Path cmd \<noteq> ''powershell'' \<or> Env cmd = [] then
        ([], Some (ErrorString ''exec: executable file not found''))
      else if last (Env cmd) = ''remotepath=/mnt/vol'' then (''True'' @ crlf, None)
      else if last (Env cmd) = ''remotepath=/mnt/odd'' then (''WARNING: slow start'' @ crlf, None)
      else if last (Env cmd) = ''remotepath='' then
        (''Test-Path : Cannot bind argument to parameter'', Some (ErrorString ''exit status 1''))
      else (''False'' @ crlf, None))"

section \<open>A reference host for the operations that change the filesystem\<close>

text \<open>
  \<^verbatim>\<open>Mkdir\<close> and \<^verbatim>\<open>Rmdir\<close> hand their arguments to \<^verbatim>\<open>os.MkdirAll\<close>,
  \<^verbatim>\<open>os.RemoveAll\<close> and \<^verbatim>\<open>os.Remove\<close>, which belong to Go's standard library and
  not to the repository. What the API does to a filesystem is therefore stated over a
  reference host that follows the documentation of package \<^verbatim>\<open>os\<close>:
  \<^item> \<^verbatim>\<open>Remove\<close> "removes the named file or (empty) directory";
  \<^item> \<^verbatim>\<open>RemoveAll\<close> "removes path and any children it contains. [...] If the path
    does not exist, RemoveAll returns nil (no error)";
  \<^item> \<^verbatim>\<open>MkdirAll\<close> "creates a directory named path, along with any necessary parents,
    and returns nil, or else returns an error. [...] If path is already a directory,
    MkdirAll does nothing and returns nil"; on a path that is present and is not a
    directory it fails with \<^verbatim>\<open>ENOTDIR\<close>.

  The host is a tree of directories and regular files under one root. A path is read as
  the list of its non-empty elements between separators, from the root; the host gives
  no meaning of their own to the elements \<^verbatim>\<open>.\<close> and \<^verbatim>\<open>..\<close>. It has no symbolic links, no
  permission checks and no device errors: an operation fails only for a reason the tree
  itself gives.
\<close>

datatype node = File FileMode | Dir FileMode "(string \<times> node) list"

definition IsPathSeparator :: "char \<Rightarrow> bool" where
  "IsPathSeparator c \<longleftrightarrow> c = CHR ''/'' \<or> c = CHR 0x5C"

fun elements :: "string \<Rightarrow> string \<Rightarrow> string list" where
  "elements cur [] = (if cur = [] then [] else [rev cur])"
| "elements cur (c # cs) =
     (if IsPathSeparator c
      then (if cur = [] then elements [] cs else rev cur # elements [] cs)
      else elements (c # cur) cs)"

definition split_path :: "string \<Rightarrow> string list" where
  "split_path path = elements [] path"

text \<open>Following a path from a node: the entry found, or why there is none.\<close>

fun walk :: "string list \<Rightarrow> node \<Rightarrow> errno + node" where
  "walk [] n = Inr n"
| "walk (c # cs) (File m) = Inl ENOTDIR"
| "walk (c # cs) (Dir m es) =
     (case map_of es c of None \<Rightarrow> Inl ENOENT | Some n \<Rightarrow> walk cs n)"

fun node_mode :: "node \<Rightarrow> FileMode" where
  "node_mode (File m) = m"
| "node_mode (Dir m es) = ModeDir OR m"

definition base_name :: "string \<Rightarrow> string" where
  "base_name path = (case split_path path of [] \<Rightarrow> ''/'' | e # es \<Rightarrow> last (e # es))"

definition os_Lstat :: "node \<Rightarrow> lstat_fn" where
  "os_Lstat root path =
     (if path = [] then Inl (PathError ''lstat'' path ENOENT)
      else case walk (split_path path) root of
             Inl e \<Rightarrow> Inl (PathError ''lstat'' path e)
           | Inr n \<Rightarrow> Inr \<lparr>Name = base_name path, Mode = node_mode n\<rparr>)"

text \<open>
  \<^verbatim>\<open>os.Remove\<close>: a regular file or a directory without entries is taken out of its
  parent; a directory with entries is refused.
\<close>

fun removable :: "node \<Rightarrow> bool" where
  "removable (File m) = True"
| "removable (Dir m es) = (es = [])"

fun remove_at :: "string list \<Rightarrow> node \<Rightarrow> errno + node" where
  "remove_at [] n = Inl EBUSY"
| "remove_at (c # cs) (File m) = Inl ENOTDIR"
| "remove_at (c # cs) (Dir m es) =
     (case map_of es c of
        None \<Rightarrow> Inl ENOENT
      | Some n \<Rightarrow>
          if cs = [] then
            (if removable n then Inr (Dir m (AList.delete c es)) else Inl ENOTEMPTY)
          else
            (case remove_at cs n of
               Inl e \<Rightarrow> Inl e
             | Inr n' \<Rightarrow> Inr (Dir m (AList.update c n' es))))"

definition os_Remove :: "node \<Rightarrow> string \<Rightarrow> error option \<times> node" where
  "os_Remove root path =
     (if path = [] then (Some (PathError ''remove'' path ENOENT), root)
      else case remove_at (split_path path) root of
             Inl e \<Rightarrow> (Some (PathError ''remove'' path e), root)
           | Inr root' \<Rightarrow> (None, root'))"

text \<open>
  \<^verbatim>\<open>os.RemoveAll\<close>: the entry goes with everything below it; a path that does not exist
  is no error, and the empty path is accepted without doing anything. Asked for the root
  itself, it removes what the root contains and reports that the root stays.
\<close>

fun remove_all_at :: "string list \<Rightarrow> node \<Rightarrow> errno + node" where
  "remove_all_at [] (File m) = Inl EBUSY"
| "remove_all_at [] (Dir m es) = Inl EBUSY"
| "remove_all_at (c # cs) (File m) = Inl ENOTDIR"
| "remove_all_at (c # cs) (Dir m es) =
     (case map_of es c of
        None \<Rightarrow> Inr (Dir m es)
      | Some n \<Rightarrow>
          if cs = [] then Inr (Dir m (AList.delete c es))
          else
            (case remove_all_at cs n of
               Inl e \<Rightarrow> Inl e
             | Inr n' \<Rightarrow> Inr (Dir m (AList.update c n' es))))"

fun emptied :: "node \<Rightarrow> node" where
  "emptied (File m) = File m"
| "emptied (Dir m es) = Dir m []"

definition os_RemoveAll :: "node \<Rightarrow> string \<Rightarrow> error option \<times> node" where
  "os_RemoveAll root path =
     (if path = [] then (None, root)
      else if split_path path = [] then (Some (PathError ''unlinkat'' path EBUSY), emptied root)
      else case remove_all_at (split_path path) root of
             Inl e \<Rightarrow> (Some (PathError ''unlinkat'' path e), root)
           | Inr root' \<Rightarrow> (None, root'))"

text \<open>
  \<^verbatim>\<open>os.MkdirAll\<close>: going down the path, a directory on the way is entered, a missing
  element is created as a directory with the given permission bits, and a regular file
  on the way (or at the end) is the error \<^verbatim>\<open>ENOTDIR\<close>; then nothing is created.

  The error names the regular file, not the path asked for: a call of \<^verbatim>\<open>MkdirAll\<close> on
  a path that is not present first calls itself on the parent, which is the path up to
  the separator before its last element, and returns an error of that call as it is. So
  the path of the error is the path asked for with as many last elements taken off as
  lie below the regular file.
\<close>

definition parent_path :: "string \<Rightarrow> string" where
  "parent_path path =
     rev (tl (dropWhile (\<lambda>c. \<not> IsPathSeparator c) (dropWhile IsPathSeparator (rev path))))"

fun ancestor_path :: "nat \<Rightarrow> string \<Rightarrow> string" where
  "ancestor_path 0 path = path"
| "ancestor_path (Suc k) path = ancestor_path k (parent_path path)"

fun mkdir_all_at :: "string list \<Rightarrow> FileMode \<Rightarrow> node \<Rightarrow> (errno \<times> nat) + node" where
  "mkdir_all_at cs perm (File m) = Inl (ENOTDIR, length cs)"
| "mkdir_all_at [] perm (Dir m es) = Inr (Dir m es)"
| "mkdir_all_at (c # cs) perm (Dir m es) =
     (case map_of es c of
        None \<Rightarrow>
          (case mkdir_all_at cs perm (Dir perm []) of
             Inl e \<Rightarrow> Inl e
           | Inr n' \<Rightarrow> Inr (Dir m (es @ [(c, n')])))
      | Some n \<Rightarrow>
          (case mkdir_all_at cs perm n of
             Inl e \<Rightarrow> Inl e
           | Inr n' \<Rightarrow> Inr (Dir m (AList.update c n' es))))"

definition os_MkdirAll :: "node \<Rightarrow> string \<Rightarrow> FileMode \<Rightarrow> error option \<times> node" where
  "os_MkdirAll root path perm =
     (if path = [] then (Some (PathError ''mkdir'' path ENOENT), root)
      else case mkdir_all_at (split_path path) perm root of
             Inl (e, below) \<Rightarrow> (Some (PathError ''mkdir'' (ancestor_path below path) e), root)
           | Inr root' \<Rightarrow> (None, root'))"

section \<open>Creating and removing directories\<close>

text \<open>
  \<^verbatim>\<open>
  func (filesystemAPI) Mkdir(path string) error {
      return os.MkdirAll(path, 0755)
  }
  func (filesystemAPI) Rmdir(path string, force bool) error {
      if force {
          return os.RemoveAll(path)
      }
      return os.Remove(path)
  }
  \<close>
  The functions take the tree of the host and return the error with the tree they leave;
  \<^verbatim>\<open>0755\<close> is octal.
\<close>

definition Mkdir :: "node \<Rightarrow> string \<Rightarrow> error option \<times> node" where
  "Mkdir root path = os_MkdirAll root path 0x1ED"

definition Rmdir :: "node \<Rightarrow> string \<Rightarrow> bool \<Rightarrow> error option \<times> node" where
  "Rmdir root path force = (if force then os_RemoveAll root path else os_Remove root path)"

subsection \<open>The vocabulary of the specification on the reference host\<close>

text \<open>
  A path in canonical form: absolute, its elements separated by single slashes, none of
  them \<^verbatim>\<open>.\<close> or \<^verbatim>\<open>..\<close>, and not the root itself. The properties of \<^verbatim>\<open>Mkdir\<close> and
  \<^verbatim>\<open>Rmdir\<close> are stated for such paths: what they name does not depend on how a host
  treats doubled or trailing separators, \<^verbatim>\<open>.\<close>, \<^verbatim>\<open>..\<close> and a working directory.
\<close>

definition canonical_path :: "string \<Rightarrow> bool" where
  "canonical_path p \<longleftrightarrow>
     split_path p \<noteq> [] \<and>
     p = concat (map (\<lambda>e. CHR ''/'' # e) (split_path p)) \<and>
     ''.'' \<notin> set (split_path p) \<and> ''..'' \<notin> set (split_path p)"

definition dir_at :: "node \<Rightarrow> string list \<Rightarrow> bool" where
  "dir_at root elems = (case walk elems root of Inr (Dir m es) \<Rightarrow> True | _ \<Rightarrow> False)"

definition is_dir :: "node \<Rightarrow> string \<Rightarrow> bool" where
  "is_dir root p = dir_at root (split_path p)"

definition is_file :: "node \<Rightarrow> string \<Rightarrow> bool" where
  "is_file root p =
     (case walk (split_path p) root of Inr (File m) \<Rightarrow> True | _ \<Rightarrow> False)"

definition is_nonempty_dir :: "node \<Rightarrow> string \<Rightarrow> bool" where
  "is_nonempty_dir root p =
     (case walk (split_path p) root of Inr (Dir m es) \<Rightarrow> es \<noteq> [] | _ \<Rightarrow> False)"

text \<open>The canonical path of a list of elements, and a regular file at such a list.\<close>

definition join_path :: "string list \<Rightarrow> string" where
  "join_path elems = concat (map (\<lambda>e. CHR ''/'' # e) elems)"

definition file_at :: "node \<Rightarrow> string list \<Rightarrow> bool" where
  "file_at root elems = (case walk elems root of Inr (File m) \<Rightarrow> True | _ \<Rightarrow> False)"

text \<open>
  No element of the path that is present is a regular file: the path leads to a
  directory, or to a missing element below directories.
\<close>

definition no_file_on_path :: "node \<Rightarrow> string \<Rightarrow> bool" where
  "no_file_on_path root p =
     (case walk (split_path p) root of
        Inr (Dir m es) \<Rightarrow> True
      | Inr (File m) \<Rightarrow> False
      | Inl e \<Rightarrow> e = ENOENT)"

subsection \<open>A sample tree\<close>

definition sample_root :: node where
  "sample_root =
     Dir 0x1ED
       [(''mnt'', Dir 0x1ED
          [(''notes.txt'', File 0x1A4),
           (''vol'', Dir 0x1ED [(''a'', File 0x1A4), (''sub'', Dir 0x1ED [(''b'', File 0x1A4)])])]),
        (''tmp'', Dir 0x1FF [])]"

section \<open>Properties of existence and mount points\<close>

lemma mode_symlink_bit: "(ModeSymlink OR 0x1FF) AND ModeSymlink \<noteq> (0 :: FileMode)"
  by (simp add: ModeSymlink_def)

lemma mode_symlink_nonzero: "ModeSymlink \<noteq> 0"
  by (simp add: ModeSymlink_def)

lemma mode_dir_no_symlink_bit: "(ModeDir OR 0x1ED) AND ModeSymlink = (0 :: FileMode)"
  by (simp add: ModeSymlink_def ModeDir_def)

lemmas sample_host_defs =
  sample_lstat_def sample_readlink_def link_info_def dir_info_def
  path_present_def path_absent_def is_symlink_def target_present_def target_absent_def
  target_dangling_link_def

text \<open>
  C4. For every path that does not exist, \<^verbatim>\<open>PathExists\<close> returns \<^verbatim>\<open>(false, nil)\<close>; it
  returns an error exactly when \<^verbatim>\<open>Lstat\<close> fails with an error other than not-found,
  and the error is then the one of \<^verbatim>\<open>Lstat\<close>.
\<close>

theorem C4_PathExists_missing_is_false:
  "(path_absent lstat P \<longrightarrow> PathExists lstat P = (False, None)) \<and>
   (snd (PathExists lstat P) = Some e \<longleftrightarrow> lstat P = Inl e \<and> \<not> IsNotExist e)"
  by (auto simp: PathExists_def pathExists_def path_absent_def split: sum.splits)

theorem C4_PathExists_missing_is_false_witness:
  "path_absent sample_lstat ''/mnt/nothing'' \<and>
   PathExists sample_lstat ''/mnt/nothing'' = (False, None) \<and>
   snd (PathExists sample_lstat ''/mnt/locked'') = Some (PathError ''lstat'' ''/mnt/locked'' EACCES)"
proof -
  have a: "path_absent sample_lstat ''/mnt/nothing''"
    by (simp add: sample_host_defs)
  have b: "sample_lstat ''/mnt/locked'' = Inl (PathError ''lstat'' ''/mnt/locked'' EACCES) \<and>
           \<not> IsNotExist (PathError ''lstat'' ''/mnt/locked'' EACCES)"
    by (simp add: sample_host_defs)
  from a b
    C4_PathExists_missing_is_false [of sample_lstat "''/mnt/nothing''"]
    C4_PathExists_missing_is_false [of sample_lstat "''/mnt/locked''"
      "PathError ''lstat'' ''/mnt/locked'' EACCES"]
  show ?thesis by blast
qed

text \<open>
  C1. For every path that exists, \<^verbatim>\<open>IsMountPoint\<close> returns \<^verbatim>\<open>(true, nil)\<close> if and only
  if the path is a symbolic link and the link's target exists; for a path that is not a
  symbolic link it returns \<^verbatim>\<open>(false, nil)\<close>, and for a symbolic link whose target does
  not exist it returns \<^verbatim>\<open>(false, nil)\<close>. The target is the path \<^verbatim>\<open>Readlink\<close> returns,
  looked up with \<^verbatim>\<open>Lstat\<close> as the code does.
\<close>

theorem C1_IsMountPoint_existing_path:
  assumes "path_present lstat P"
  shows "(IsMountPoint lstat readlink P = (True, None) \<longleftrightarrow>
            is_symlink lstat P \<and> target_present lstat readlink P) \<and>
         (\<not> is_symlink lstat P \<longrightarrow> IsMountPoint lstat readlink P = (False, None)) \<and>
         (is_symlink lstat P \<and> target_absent lstat readlink P \<longrightarrow>
            IsMountPoint lstat readlink P = (False, None))"
proof (cases "lstat P")
  case (Inl e)
  with assms show ?thesis by (simp add: path_present_def)
next
  case stat: (Inr fi)
  show ?thesis
  proof (cases "Mode fi AND ModeSymlink = 0")
    case True
    with stat show ?thesis
      by (simp add: IsMountPoint_def is_symlink_def)
  next
    case link: False
    show ?thesis
    proof (cases "readlink P")
      case (Inl e)
      with stat link show ?thesis
        by (simp add: IsMountPoint_def is_symlink_def target_present_def target_absent_def)
    next
      case (Inr t)
      with stat link show ?thesis
        by (cases "lstat t")
           (simp_all add: IsMountPoint_def is_symlink_def target_present_def target_absent_def
              path_present_def path_absent_def pathExists_def)
    qed
  qed
qed

theorem C1_IsMountPoint_existing_path_witness:
  "IsMountPoint sample_lstat sample_readlink ''/mnt/vol'' = (True, None) \<and>
   IsMountPoint sample_lstat sample_readlink ''/mnt/plain'' = (False, None) \<and>
   IsMountPoint sample_lstat sample_readlink ''/mnt/gone'' = (False, None)"
proof -
  have vol: "path_present sample_lstat ''/mnt/vol'' \<and> is_symlink sample_lstat ''/mnt/vol'' \<and>
             target_present sample_lstat sample_readlink ''/mnt/vol''"
    by (simp add: sample_host_defs mode_symlink_bit mode_symlink_nonzero)
  have plain: "path_present sample_lstat ''/mnt/plain'' \<and> \<not> is_symlink sample_lstat ''/mnt/plain''"
    by (simp add: sample_host_defs mode_dir_no_symlink_bit)
  have gone: "path_present sample_lstat ''/mnt/gone'' \<and> is_symlink sample_lstat ''/mnt/gone'' \<and>
              target_absent sample_lstat sample_readlink ''/mnt/gone''"
    by (simp add: sample_host_defs mode_symlink_bit mode_symlink_nonzero)
  from vol plain gone
    C1_IsMountPoint_existing_path [of sample_lstat "''/mnt/vol''" sample_readlink]
    C1_IsMountPoint_existing_path [of sample_lstat "''/mnt/plain''" sample_readlink]
    C1_IsMountPoint_existing_path [of sample_lstat "''/mnt/gone''" sample_readlink]
  show ?thesis by blast
qed

text \<open>
  C2, as stated (a path that does not exist yields \<^verbatim>\<open>(false, nil)\<close> and never an
  error), fails: for a missing path \<^verbatim>\<open>IsMountPoint\<close> returns the error of \<^verbatim>\<open>Lstat\<close>.
\<close>

theorem C2_IsMountPoint_missing_path_counterexample:
  "path_absent sample_lstat ''/mnt/nothing'' \<and>
   IsMountPoint sample_lstat sample_readlink ''/mnt/nothing'' =
     (False, Some (PathError ''lstat'' ''/mnt/nothing'' ENOENT)) \<and>
   IsMountPoint sample_lstat sample_readlink ''/mnt/nothing'' \<noteq> (False, None)"
  by (simp add: sample_host_defs IsMountPoint_def)

text \<open>
  C2, amended. For every path that does not exist, \<^verbatim>\<open>IsMountPoint\<close> returns \<^verbatim>\<open>false\<close>
  together with the not-found error of \<^verbatim>\<open>Lstat\<close>, unchanged (as it does for every
  other error of \<^verbatim>\<open>Lstat\<close>); a dangling link, which exists, yields \<^verbatim>\<open>(false, nil)\<close>.
\<close>

theorem C2_IsMountPoint_missing_path_error:
  "(lstat P = Inl e \<longrightarrow> IsMountPoint lstat readlink P = (False, Some e)) \<and>
   (path_absent lstat P \<longrightarrow>
      (case snd (IsMountPoint lstat readlink P) of
         Some err \<Rightarrow> IsNotExist err \<and> lstat P = Inl err
       | None \<Rightarrow> False) \<and>
      \<not> fst (IsMountPoint lstat readlink P)) \<and>
   (is_symlink lstat P \<and> target_absent lstat readlink P \<longrightarrow>
      IsMountPoint lstat readlink P = (False, None))"
proof (intro conjI impI)
  assume "lstat P = Inl e"
  then show "IsMountPoint lstat readlink P = (False, Some e)"
    by (simp add: IsMountPoint_def)
next
  assume "path_absent lstat P"
  then show "case snd (IsMountPoint lstat readlink P) of
               Some err \<Rightarrow> IsNotExist err \<and> lstat P = Inl err | None \<Rightarrow> False"
    by (cases "lstat P") (simp_all add: IsMountPoint_def path_absent_def)
next
  assume "path_absent lstat P"
  then show "\<not> fst (IsMountPoint lstat readlink P)"
    by (cases "lstat P") (simp_all add: IsMountPoint_def path_absent_def)
next
  assume a: "is_symlink lstat P \<and> target_absent lstat readlink P"
  then obtain fi where fi: "lstat P = Inr fi" "Mode fi AND ModeSymlink \<noteq> 0"
    by (cases "lstat P") (simp_all add: is_symlink_def)
  from a obtain t where t: "readlink P = Inr t" "path_absent lstat t"
    by (cases "readlink P") (simp_all add: target_absent_def)
  from t(2) have "pathExists lstat t = (False, None)"
    by (cases "lstat t") (simp_all add: path_absent_def pathExists_def)
  with fi t(1) show "IsMountPoint lstat readlink P = (False, None)"
    by (simp add: IsMountPoint_def)
qed

theorem C2_IsMountPoint_missing_path_error_witness:
  "IsMountPoint sample_lstat sample_readlink ''/mnt/nothing'' =
     (False, Some (PathError ''lstat'' ''/mnt/nothing'' ENOENT)) \<and>
   IsMountPoint sample_lstat sample_readlink ''/mnt/gone'' = (False, None)"
proof -
  have a: "sample_lstat ''/mnt/nothing'' = Inl (PathError ''lstat'' ''/mnt/nothing'' ENOENT)"
    by (simp add: sample_host_defs)
  have b: "is_symlink sample_lstat ''/mnt/gone'' \<and>
           target_absent sample_lstat sample_readlink ''/mnt/gone''"
    by (simp add: sample_host_defs mode_symlink_bit mode_symlink_nonzero)
  from a b
    C2_IsMountPoint_missing_path_error [of sample_lstat "''/mnt/nothing''"
      "PathError ''lstat'' ''/mnt/nothing'' ENOENT" sample_readlink]
    C2_IsMountPoint_missing_path_error [of sample_lstat "''/mnt/gone''" _ sample_readlink]
  show ?thesis by blast
qed

text \<open>
  C9. \<^verbatim>\<open>PathExists\<close> does not follow symbolic links: for every path that is a symbolic
  link it returns \<^verbatim>\<open>(true, nil)\<close>, whatever \<^verbatim>\<open>Readlink\<close> and \<^verbatim>\<open>Lstat\<close> say about
  the link's target, so also for a dangling link whose target is absent.
\<close>

theorem C9_PathExists_true_on_links:
  "(is_symlink lstat P \<longrightarrow> PathExists lstat P = (True, None)) \<and>
   (is_symlink lstat P \<and> target_absent lstat readlink P \<longrightarrow> PathExists lstat P = (True, None))"
  by (cases "lstat P") (simp_all add: is_symlink_def PathExists_def pathExists_def)

theorem C9_PathExists_true_on_links_witness:
  "is_symlink sample_lstat ''/mnt/gone'' \<and>
   target_absent sample_lstat sample_readlink ''/mnt/gone'' \<and>
   PathExists sample_lstat ''/mnt/gone'' = (True, None)"
proof -
  have a: "is_symlink sample_lstat ''/mnt/gone'' \<and>
           target_absent sample_lstat sample_readlink ''/mnt/gone''"
    by (simp add: sample_host_defs mode_symlink_bit mode_symlink_nonzero)
  from a C9_PathExists_true_on_links [of sample_lstat "''/mnt/gone''" sample_readlink]
  show ?thesis by blast
qed

text \<open>
  C10. The target of a link is tested with the same \<^verbatim>\<open>Lstat\<close>-based test: for every
  symbolic link whose target is itself a dangling symbolic link, \<^verbatim>\<open>IsMountPoint\<close>
  returns \<^verbatim>\<open>(true, nil)\<close>.
\<close>

theorem C10_IsMountPoint_link_to_dangling_link:
  "is_symlink lstat P \<and> target_dangling_link lstat readlink P \<longrightarrow>
     IsMountPoint lstat readlink P = (True, None)"
proof
  assume a: "is_symlink lstat P \<and> target_dangling_link lstat readlink P"
  then obtain fi where fi: "lstat P = Inr fi" "Mode fi AND ModeSymlink \<noteq> 0"
    by (cases "lstat P") (simp_all add: is_symlink_def)
  from a obtain t where t: "readlink P = Inr t" "is_symlink lstat t"
    by (cases "readlink P") (simp_all add: target_dangling_link_def)
  from t(2) have "pathExists lstat t = (True, None)"
    by (cases "lstat t") (simp_all add: is_symlink_def pathExists_def)
  with fi t(1) show "IsMountPoint lstat readlink P = (True, None)"
    by (simp add: IsMountPoint_def)
qed

theorem C10_IsMountPoint_link_to_dangling_link_witness:
  "is_symlink sample_lstat ''/mnt/chain'' \<and>
   target_dangling_link sample_lstat sample_readlink ''/mnt/chain'' \<and>
   IsMountPoint sample_lstat sample_readlink ''/mnt/chain'' = (True, None)"
proof -
  have a: "is_symlink sample_lstat ''/mnt/chain'' \<and>
           target_dangling_link sample_lstat sample_readlink ''/mnt/chain''"
    by (simp add: sample_host_defs mode_symlink_bit mode_symlink_nonzero)
  from a C10_IsMountPoint_link_to_dangling_link [of sample_lstat "''/mnt/chain''" sample_readlink]
  show ?thesis by blast
qed

section \<open>Properties of path validation\<close>

lemma char_of_eq_iff_nat:
  fixes n :: nat
  assumes "n < 256"
  shows "char_of n = x \<longleftrightarrow> n = of_char x"
proof
  assume "char_of n = x"
  then have "of_char (char_of n) = (of_char x :: nat)" by simp
  with assms show "n = of_char x" by (simp add: of_char_of)
next
  assume "n = of_char x"
  then show "char_of n = x" by simp
qed

lemma of_char_eq_numeral_iff: "((of_char c :: nat) = n) \<longleftrightarrow> (n < 256 \<and> c = char_of n)"
  by (auto simp: of_char_of)

lemma ToLower_byte_eq_small_letter:
  assumes "(97::nat) \<le> of_char x" "of_char x \<le> (122::nat)"
  shows "ToLower_byte c = x \<longleftrightarrow> c = x \<or> (of_char c :: nat) + 32 = of_char x"
proof (cases "65 \<le> (of_char c :: nat) \<and> (of_char c :: nat) \<le> 90")
  case True
  then have "ToLower_byte c = char_of ((of_char c :: nat) + 32)"
    by (simp add: ToLower_byte_def)
  moreover have "(char_of ((of_char c :: nat) + 32) = x) = ((of_char c :: nat) + 32 = of_char x)"
    using True by (intro char_of_eq_iff_nat) simp
  moreover have "c \<noteq> x" using True assms by auto
  ultimately show ?thesis by simp
next
  case False
  then have "ToLower_byte c = c" by (auto simp: ToLower_byte_def)
  moreover have "(of_char c :: nat) + 32 \<noteq> of_char x" using False assms by auto
  ultimately show ?thesis by auto
qed

lemma ToLower_byte_t: "ToLower_byte c = CHR ''t'' \<longleftrightarrow> c = CHR ''t'' \<or> c = CHR ''T''"
proof -
  have "(of_char c :: nat) + 32 = 116 \<longleftrightarrow> (of_char c :: nat) = 84" by arith
  also have "\<dots> \<longleftrightarrow> c = CHR ''T''" by (simp add: of_char_eq_numeral_iff char_of_def bit_0)
  finally show ?thesis by (simp add: ToLower_byte_eq_small_letter)
qed

lemma ToLower_byte_r: "ToLower_byte c = CHR ''r'' \<longleftrightarrow> c = CHR ''r'' \<or> c = CHR ''R''"
proof -
  have "(of_char c :: nat) + 32 = 114 \<longleftrightarrow> (of_char c :: nat) = 82" by arith
  also have "\<dots> \<longleftrightarrow> c = CHR ''R''" by (simp add: of_char_eq_numeral_iff char_of_def bit_0)
  finally show ?thesis by (simp add: ToLower_byte_eq_small_letter)
qed

lemma ToLower_byte_u: "ToLower_byte c = CHR ''u'' \<longleftrightarrow> c = CHR ''u'' \<or> c = CHR ''U''"
proof -
  have "(of_char c :: nat) + 32 = 117 \<longleftrightarrow> (of_char c :: nat) = 85" by arith
  also have "\<dots> \<longleftrightarrow> c = CHR ''U''" by (simp add: of_char_eq_numeral_iff char_of_def bit_0)
  finally show ?thesis by (simp add: ToLower_byte_eq_small_letter)
qed

lemma ToLower_byte_e: "ToLower_byte c = CHR ''e'' \<longleftrightarrow> c = CHR ''e'' \<or> c = CHR ''E''"
proof -
  have "(of_char c :: nat) + 32 = 101 \<longleftrightarrow> (of_char c :: nat) = 69" by arith
  also have "\<dots> \<longleftrightarrow> c = CHR ''E''" by (simp add: of_char_eq_numeral_iff char_of_def bit_0)
  finally show ?thesis by (simp add: ToLower_byte_eq_small_letter)
qed

lemma HasPrefix_true_iff:
  "HasPrefix (ToLower out) ''true'' \<longleftrightarrow>
     (\<exists>a b c d rest. out = a # b # c # d # rest \<and>
        (a = CHR ''t'' \<or> a = CHR ''T'') \<and> (b = CHR ''r'' \<or> b = CHR ''R'') \<and>
        (c = CHR ''u'' \<or> c = CHR ''U'') \<and> (d = CHR ''e'' \<or> d = CHR ''E''))"
proof (cases out)
  case Nil
  then show ?thesis by (simp add: HasPrefix_def ToLower_def)
next
  case a: (Cons a as)
  show ?thesis
  proof (cases as)
    case Nil
    with a show ?thesis by (simp add: HasPrefix_def ToLower_def)
  next
    case b: (Cons b bs)
    show ?thesis
    proof (cases bs)
      case Nil
      with a b show ?thesis by (simp add: HasPrefix_def ToLower_def)
    next
      case c: (Cons c cs)
      show ?thesis
      proof (cases cs)
        case Nil
        with a b c show ?thesis by (simp add: HasPrefix_def ToLower_def)
      next
        case (Cons d ds)
        with a b c show ?thesis
          by (simp add: HasPrefix_def ToLower_def
                ToLower_byte_t ToLower_byte_r ToLower_byte_u ToLower_byte_e)
      qed
    qed
  qed
qed

lemma pathValid_run:
  "pathValid env run p =
     (case run (pathValid_cmd env p) of
        (out, Some e) \<Rightarrow>
          (False, Some (ErrorString (''returned output: '' @ out @ '', error: '' @ Error e)))
      | (out, None) \<Rightarrow> (HasPrefix (ToLower out) ''true'', None))"
  by (cases "run (pathValid_cmd env p)") (simp add: pathValid_def split: option.splits)

lemmas sample_run_defs =
  sample_run_def pathValid_cmd_def Command_def crlf_def


text \<open>
  C6. For every input path, the command line handed to the external utility by
  \<^verbatim>\<open>PathValid\<close> is a fixed constant: the program and the argument vector are the same
  for all paths, the path occurs only in the entry \<^verbatim>\<open>remotepath=...\<close> added at the end
  of the subprocess environment, and the result of \<^verbatim>\<open>PathValid\<close> depends on the host
  only through the run of that one command.
\<close>

theorem C6_PathValid_command_line_constant:
  "Path (pathValid_cmd env p) = ''powershell'' \<and>
   Args (pathValid_cmd env p) = [''powershell'', ''/c'', ''Test-Path $Env:remotepath''] \<and>
   Env (pathValid_cmd env p) = env @ [''remotepath='' @ p] \<and>
   Path (pathValid_cmd env q) = Path (pathValid_cmd env p) \<and>
   Args (pathValid_cmd env q) = Args (pathValid_cmd env p) \<and>
   butlast (Env (pathValid_cmd env q)) = butlast (Env (pathValid_cmd env p)) \<and>
   (run (pathValid_cmd env p) = run' (pathValid_cmd env p) \<longrightarrow>
      PathValid env run p = PathValid env run' p)"
  by (simp add: pathValid_cmd_def Command_def PathValid_def pathValid_def)

theorem C6_PathValid_command_line_constant_witness:
  "Args (pathValid_cmd [''PATH=/bin''] ''/mnt/vol; Remove-Item /mnt'') =
     [''powershell'', ''/c'', ''Test-Path $Env:remotepath''] \<and>
   Env (pathValid_cmd [''PATH=/bin''] ''/mnt/vol; Remove-Item /mnt'') =
     [''PATH=/bin'', ''remotepath=/mnt/vol; Remove-Item /mnt''] \<and>
   PathValid [''PATH=/bin''] sample_run ''/mnt/vol; Remove-Item /mnt'' =
     PathValid [''PATH=/bin''] (\<lambda>c. (''False'' @ crlf, None)) ''/mnt/vol; Remove-Item /mnt''"
proof -
  have same: "sample_run (pathValid_cmd [''PATH=/bin''] ''/mnt/vol; Remove-Item /mnt'') =
              (\<lambda>c. (''False'' @ crlf, None)) (pathValid_cmd [''PATH=/bin''] ''/mnt/vol; Remove-Item /mnt'')"
    by (simp add: sample_run_defs)
  from same
    C6_PathValid_command_line_constant [of "[''PATH=/bin'']" "''/mnt/vol; Remove-Item /mnt''"
      "''/mnt/vol''" sample_run "\<lambda>c. (''False'' @ crlf, None)"]
  show ?thesis by simp
qed

text \<open>
  C7. When the external utility runs successfully, \<^verbatim>\<open>PathValid\<close> reads its output
  without regard to case: it returns \<^verbatim>\<open>true\<close> exactly when the lowercased output
  begins with \<^verbatim>\<open>true\<close>, that is, when the output begins with the four letters in
  either case, whatever follows them.
\<close>

theorem C7_PathValid_true_prefix_any_case:
  assumes "run (pathValid_cmd env p) = (out, None)"
  shows "PathValid env run p = (HasPrefix (ToLower out) ''true'', None) \<and>
         (fst (PathValid env run p) \<longleftrightarrow>
            (\<exists>a b c d rest. out = a # b # c # d # rest \<and>
               (a = CHR ''t'' \<or> a = CHR ''T'') \<and> (b = CHR ''r'' \<or> b = CHR ''R'') \<and>
               (c = CHR ''u'' \<or> c = CHR ''U'') \<and> (d = CHR ''e'' \<or> d = CHR ''E'')))"
proof -
  from assms have r: "PathValid env run p = (HasPrefix (ToLower out) ''true'', None)"
    by (simp add: PathValid_def pathValid_run)
  then have "fst (PathValid env run p) = HasPrefix (ToLower out) ''true''"
    by simp
  with r show ?thesis
    by (simp only: HasPrefix_true_iff)
qed

theorem C7_PathValid_true_prefix_any_case_witness:
  "sample_run (pathValid_cmd [] ''/mnt/vol'') = (''True'' @ crlf, None) \<and>
   PathValid [] sample_run ''/mnt/vol'' = (True, None) \<and>
   PathValid [] (\<lambda>c. (''tRUE and more'', None)) ''/mnt/vol'' = (True, None) \<and>
   PathValid [] sample_run ''/mnt/nothing'' = (False, None)"
proof -
  have a: "sample_run (pathValid_cmd [] ''/mnt/vol'') = (''True'' @ crlf, None)"
    by (simp add: sample_run_defs)
  have b: "(\<lambda>c. (''tRUE and more'', None)) (pathValid_cmd [] ''/mnt/vol'') =
           (''tRUE and more'', None :: error option)"
    by simp
  have c: "sample_run (pathValid_cmd [] ''/mnt/nothing'') = (''False'' @ crlf, None)"
    by (simp add: sample_run_defs)
  have e: "HasPrefix (ToLower (''True'' @ crlf)) ''true'' \<and>
           HasPrefix (ToLower ''tRUE and more'') ''true'' \<and>
           \<not> HasPrefix (ToLower (''False'' @ crlf)) ''true''"
    by (simp add: HasPrefix_def ToLower_def ToLower_byte_def char_of_def bit_0 crlf_def)
  from a b c e
    C7_PathValid_true_prefix_any_case [where run = sample_run and env = "[]"
      and p = "''/mnt/vol''" and out = "''True'' @ crlf"]
    C7_PathValid_true_prefix_any_case [where run = "\<lambda>c. (''tRUE and more'', None)"
      and env = "[]" and p = "''/mnt/vol''" and out = "''tRUE and more''"]
    C7_PathValid_true_prefix_any_case [where run = sample_run and env = "[]"
      and p = "''/mnt/nothing''" and out = "''False'' @ crlf"]
  show ?thesis by simp
qed

text \<open>
  C3, as stated (an error exactly when the utility fails to run or returns a result that
  cannot be parsed), fails: a run that exits successfully with output that is neither of
  the utility's answers gives \<^verbatim>\<open>(false, nil)\<close>, not an error.
\<close>

theorem C3_PathValid_unparseable_counterexample:
  "sample_run (pathValid_cmd [] ''/mnt/odd'') = (''WARNING: slow start'' @ crlf, None) \<and>
   \<not> spec_parseable (''WARNING: slow start'' @ crlf) \<and>
   PathValid [] sample_run ''/mnt/odd'' = (False, None)"
  by (simp add: sample_run_defs PathValid_def pathValid_def spec_parseable_def
        HasPrefix_def ToLower_def ToLower_byte_def char_of_def bit_0)

text \<open>
  C3, amended. \<^verbatim>\<open>PathValid\<close> returns an error exactly when the run of the external
  utility returns an error (it could not be started or did not exit successfully); the
  message of that error always contains the raw combined output. A run that succeeds
  never yields an error: output that does not begin with \<^verbatim>\<open>true\<close> in some case, a
  report that the path is invalid as much as any other text, gives \<^verbatim>\<open>(false, nil)\<close>.
\<close>

theorem C3_PathValid_error_iff_run_error:
  "(snd (PathValid env run p) \<noteq> None \<longleftrightarrow> snd (run (pathValid_cmd env p)) \<noteq> None) \<and>
   (run (pathValid_cmd env p) = (out, Some e) \<longrightarrow>
      PathValid env run p =
        (False, Some (ErrorString (''returned output: '' @ out @ '', error: '' @ Error e))) \<and>
      sublist out (Error (the (snd (PathValid env run p))))) \<and>
   (run (pathValid_cmd env p) = (out, None) \<and> \<not> HasPrefix (ToLower out) ''true'' \<longrightarrow>
      PathValid env run p = (False, None))"
proof (intro conjI impI)
  show "snd (PathValid env run p) \<noteq> None \<longleftrightarrow> snd (run (pathValid_cmd env p)) \<noteq> None"
    by (cases "run (pathValid_cmd env p)")
       (simp add: PathValid_def pathValid_run split: option.splits)
next
  assume "run (pathValid_cmd env p) = (out, Some e)"
  then show "PathValid env run p =
        (False, Some (ErrorString (''returned output: '' @ out @ '', error: '' @ Error e)))"
    by (simp add: PathValid_def pathValid_run)
next
  assume "run (pathValid_cmd env p) = (out, Some e)"
  then have "Error (the (snd (PathValid env run p))) =
               ''returned output: '' @ out @ ('', error: '' @ Error e)"
    by (simp add: PathValid_def pathValid_run)
  then show "sublist out (Error (the (snd (PathValid env run p))))"
    by (simp only: sublist_appendI)
next
  assume "run (pathValid_cmd env p) = (out, None) \<and> \<not> HasPrefix (ToLower out) ''true''"
  then show "PathValid env run p = (False, None)"
    by (simp add: PathValid_def pathValid_run)
qed

theorem C3_PathValid_error_iff_run_error_witness:
  "PathValid [] sample_run [] =
     (False, Some (ErrorString
        ''returned output: Test-Path : Cannot bind argument to parameter, error: exit status 1'')) \<and>
   PathValid [] sample_run ''/mnt/nothing'' = (False, None)"
proof -
  have a: "sample_run (pathValid_cmd [] []) =
           (''Test-Path : Cannot bind argument to parameter'', Some (ErrorString ''exit status 1''))"
    by (simp add: sample_run_defs)
  have b: "sample_run (pathValid_cmd [] ''/mnt/nothing'') = (''False'' @ crlf, None) \<and>
           \<not> HasPrefix (ToLower (''False'' @ crlf)) ''true''"
    by (simp add: sample_run_defs HasPrefix_def ToLower_def ToLower_byte_def char_of_def bit_0)
  from a b
    C3_PathValid_error_iff_run_error [of "[]" sample_run "[]"
      "''Test-Path : Cannot bind argument to parameter''" "ErrorString ''exit status 1''"]
    C3_PathValid_error_iff_run_error [of "[]" sample_run "''/mnt/nothing''" "''False'' @ crlf"]
  show ?thesis by simp
qed


section \<open>Properties of the reference host\<close>

lemma walk_Inr_Dir:
  assumes "walk (c # cs) n = Inr k"
  obtains m es x where "n = Dir m es" "map_of es c = Some x" "walk cs x = Inr k"
  using assms by (cases n) (auto split: option.splits)

lemma walk_empty_dir:
  "walk cs (Dir p []) = (if cs = [] then Inr (Dir p []) else Inl ENOENT)"
  by (cases cs) simp_all

lemma walk_append_error: "walk xs n = Inl e \<Longrightarrow> walk (xs @ ys) n = Inl e"
proof (induction xs arbitrary: n)
  case Nil
  then show ?case by simp
next
  case (Cons c cs)
  then show ?case by (cases n) (auto split: option.splits)
qed

lemma walk_prefix_dir:
  "walk (xs @ ys) n = Inr k \<Longrightarrow> ys \<noteq> [] \<Longrightarrow> \<exists>m es. walk xs n = Inr (Dir m es)"
proof (induction xs arbitrary: n)
  case Nil
  then show ?case by (cases ys; cases n) simp_all
next
  case (Cons c cs)
  then show ?case by (cases n) (auto split: option.splits)
qed

lemma map_of_delete_same: "map_of (AList.delete c es) c = None"
  by (simp add: delete_conv')

lemma map_of_update_same: "map_of (AList.update c v es) c = Some v"
  by (simp add: update_conv')

lemma map_of_snoc_new: "map_of es c = None \<Longrightarrow> map_of (es @ [(c, v)]) c = Some v"
  by (simp add: map_add_def)

subsection \<open>Removal\<close>

lemma remove_at_refused:
  "cs \<noteq> [] \<Longrightarrow> walk cs n = Inr k \<Longrightarrow> \<not> removable k \<Longrightarrow> remove_at cs n = Inl ENOTEMPTY"
proof (induction cs arbitrary: n)
  case Nil
  then show ?case by simp
next
  case (Cons c cs)
  from Cons.prems(2) obtain m es x
    where n: "n = Dir m es" "map_of es c = Some x" "walk cs x = Inr k"
    by (rule walk_Inr_Dir)
  show ?case
  proof (cases "cs = []")
    case True
    with n Cons.prems(3) show ?thesis by simp
  next
    case False
    with Cons.IH [OF False n(3) Cons.prems(3)] n show ?thesis by simp
  qed
qed

lemma remove_at_done:
  "cs \<noteq> [] \<Longrightarrow> walk cs n = Inr k \<Longrightarrow> removable k \<Longrightarrow>
     \<exists>n'. remove_at cs n = Inr n' \<and> walk cs n' = Inl ENOENT"
proof (induction cs arbitrary: n)
  case Nil
  then show ?case by simp
next
  case (Cons c cs)
  from Cons.prems(2) obtain m es x
    where n: "n = Dir m es" "map_of es c = Some x" "walk cs x = Inr k"
    by (rule walk_Inr_Dir)
  show ?case
  proof (cases "cs = []")
    case True
    with n Cons.prems(3) show ?thesis by (simp add: map_of_delete_same)
  next
    case False
    from Cons.IH [OF False n(3) Cons.prems(3)]
    obtain x' where "remove_at cs x = Inr x'" "walk cs x' = Inl ENOENT" by blast
    with False n show ?thesis by (simp add: map_of_update_same)
  qed
qed

lemma remove_all_at_done:
  "cs \<noteq> [] \<Longrightarrow> walk cs n = Inr k \<Longrightarrow>
     \<exists>n'. remove_all_at cs n = Inr n' \<and> walk cs n' = Inl ENOENT"
proof (induction cs arbitrary: n)
  case Nil
  then show ?case by simp
next
  case (Cons c cs)
  from Cons.prems(2) obtain m es x
    where n: "n = Dir m es" "map_of es c = Some x" "walk cs x = Inr k"
    by (rule walk_Inr_Dir)
  show ?case
  proof (cases "cs = []")
    case True
    with n show ?thesis by (simp add: map_of_delete_same)
  next
    case False
    from Cons.IH [OF False n(3)]
    obtain x' where "remove_all_at cs x = Inr x'" "walk cs x' = Inl ENOENT" by blast
    with False n show ?thesis by (simp add: map_of_update_same)
  qed
qed

lemma absent_below:
  assumes "walk (split_path p) root = Inl ENOENT" "prefix (split_path p) (split_path q)"
  shows "PathExists (os_Lstat root) q = (False, None)"
proof -
  from assms(2) obtain ys where "split_path q = split_path p @ ys"
    by (auto simp: prefix_def)
  with assms(1) have "walk (split_path q) root = Inl ENOENT"
    by (simp add: walk_append_error)
  then show ?thesis
    by (simp add: PathExists_def pathExists_def os_Lstat_def)
qed

subsection \<open>Creation\<close>

lemma mkdir_all_at_creates:
  "walk cs n = Inl ENOENT \<or> (\<exists>m es. walk cs n = Inr (Dir m es)) \<Longrightarrow>
     \<exists>n' m' es'. mkdir_all_at cs perm n = Inr n' \<and> walk cs n' = Inr (Dir m' es')"
proof (induction cs arbitrary: n)
  case Nil
  then show ?case by (cases n) simp_all
next
  case (Cons c cs)
  from Cons.prems obtain m es where n: "n = Dir m es"
    by (cases n) simp_all
  show ?case
  proof (cases "map_of es c")
    case None
    have "walk cs (Dir perm []) = Inl ENOENT \<or> (\<exists>m es. walk cs (Dir perm []) = Inr (Dir m es))"
      by (simp add: walk_empty_dir)
    from Cons.IH [OF this] obtain k m' es'
      where k: "mkdir_all_at cs perm (Dir perm []) = Inr k" "walk cs k = Inr (Dir m' es')"
      by blast
    from None have "map_of (es @ [(c, k)]) c = Some k" by (rule map_of_snoc_new)
    with n None k show ?thesis by (simp del: map_of_append)
  next
    case (Some x)
    with Cons.prems n
    have "walk cs x = Inl ENOENT \<or> (\<exists>m es. walk cs x = Inr (Dir m es))" by simp
    from Cons.IH [OF this] obtain k m' es'
      where "mkdir_all_at cs perm x = Inr k" "walk cs k = Inr (Dir m' es')"
      by blast
    with n Some show ?thesis by (simp add: map_of_update_same)
  qed
qed

lemma mkdir_all_at_again:
  "mkdir_all_at cs perm n = Inr n' \<Longrightarrow> mkdir_all_at cs perm n' = Inr n'"
proof (induction cs arbitrary: n n')
  case Nil
  then show ?case by (cases n) auto
next
  case (Cons c cs)
  from Cons.prems obtain m es where n: "n = Dir m es"
    by (cases n) simp_all
  show ?case
  proof (cases "map_of es c")
    case None
    with Cons.prems n obtain k
      where k: "mkdir_all_at cs perm (Dir perm []) = Inr k" "n' = Dir m (es @ [(c, k)])"
      by (auto split: sum.splits)
    from Cons.IH [OF k(1)] have "mkdir_all_at cs perm k = Inr k" .
    moreover have "map_of (es @ [(c, k)]) c = Some k"
      using None by (rule map_of_snoc_new)
    ultimately show ?thesis using k(2) by (simp add: update_triv)
  next
    case (Some x)
    with Cons.prems n obtain k
      where k: "mkdir_all_at cs perm x = Inr k" "n' = Dir m (AList.update c k es)"
      by (auto split: sum.splits)
    from Cons.IH [OF k(1)] have "mkdir_all_at cs perm k = Inr k" .
    moreover have "map_of (AList.update c k es) c = Some k"
      by (rule map_of_update_same)
    ultimately show ?thesis using k(2) by (simp add: update_triv)
  qed
qed

lemma mkdir_all_at_present:
  "walk cs n = Inr (Dir m es) \<Longrightarrow> mkdir_all_at cs perm n = Inr n"
proof (induction cs arbitrary: n)
  case Nil
  then show ?case by simp
next
  case (Cons c cs)
  from Cons.prems obtain m0 es0 x
    where n: "n = Dir m0 es0" "map_of es0 c = Some x" "walk cs x = Inr (Dir m es)"
    by (rule walk_Inr_Dir)
  from Cons.IH [OF n(3)] n show ?case by (simp add: update_triv)
qed

lemma mkdir_all_at_blocked:
  "walk cs n = Inl ENOTDIR \<or> (\<exists>m. walk cs n = Inr (File m)) \<Longrightarrow>
     \<exists>xs below m. cs = xs @ below \<and> walk xs n = Inr (File m) \<and>
        mkdir_all_at cs perm n = Inl (ENOTDIR, length below)"
proof (induction cs arbitrary: n)
  case Nil
  then obtain m where "n = File m" by (cases n) simp_all
  then show ?case by simp
next
  case (Cons c cs)
  show ?case
  proof (cases n)
    case (File m)
    then have "c # cs = [] @ (c # cs) \<and> walk [] n = Inr (File m) \<and>
               mkdir_all_at (c # cs) perm n = Inl (ENOTDIR, length (c # cs))"
      by simp
    then show ?thesis by blast
  next
    case (Dir m es)
    with Cons.prems obtain x where x: "map_of es c = Some x"
      by (cases "map_of es c") auto
    with Cons.prems Dir
    have "walk cs x = Inl ENOTDIR \<or> (\<exists>m. walk cs x = Inr (File m))" by simp
    from Cons.IH [OF this] obtain xs below m'
      where r: "cs = xs @ below" "walk xs x = Inr (File m')"
        "mkdir_all_at cs perm x = Inl (ENOTDIR, length below)"
      by blast
    with Dir x have "c # cs = (c # xs) @ below \<and> walk (c # xs) n = Inr (File m') \<and>
                     mkdir_all_at (c # cs) perm n = Inl (ENOTDIR, length below)"
      by simp
    then show ?thesis by blast
  qed
qed

lemma mkdir_all_at_file:
  "walk cs n = Inr (File m) \<Longrightarrow> mkdir_all_at cs perm n = Inl (ENOTDIR, 0)"
proof (induction cs arbitrary: n)
  case Nil
  then show ?case by simp
next
  case (Cons c cs)
  from Cons.prems obtain m0 es0 x
    where n: "n = Dir m0 es0" "map_of es0 c = Some x" "walk cs x = Inr (File m)"
    by (rule walk_Inr_Dir)
  from Cons.IH [OF n(3)] n show ?case by simp
qed

subsection \<open>Paths as strings\<close>

lemma elements_clean:
  "\<forall>c \<in> set acc. \<not> IsPathSeparator c \<Longrightarrow> e \<in> set (elements acc s) \<Longrightarrow>
     e \<noteq> [] \<and> (\<forall>c \<in> set e. \<not> IsPathSeparator c)"
proof (induction s arbitrary: acc)
  case Nil
  then show ?case by (auto split: if_splits)
next
  case (Cons a s)
  show ?case
  proof (cases "IsPathSeparator a")
    case True
    with Cons.prems have "e = rev acc \<and> acc \<noteq> [] \<or> e \<in> set (elements [] s)"
      by (auto split: if_splits)
    then show ?thesis
    proof
      assume "e = rev acc \<and> acc \<noteq> []"
      with Cons.prems(1) show ?thesis by simp
    next
      assume "e \<in> set (elements [] s)"
      with Cons.IH [of "[]"] show ?thesis by simp
    qed
  next
    case False
    with Cons.prems have "e \<in> set (elements (a # acc) s)" by simp
    with Cons.IH [of "a # acc"] Cons.prems(1) False show ?thesis by simp
  qed
qed

lemma split_path_clean:
  "e \<in> set (split_path p) \<Longrightarrow> e \<noteq> [] \<and> (\<forall>c \<in> set e. \<not> IsPathSeparator c)"
  unfolding split_path_def by (rule elements_clean [of "[]"]) simp_all

lemma parent_path_snoc:
  assumes "x \<noteq> []" "\<forall>c \<in> set x. \<not> IsPathSeparator c"
  shows "parent_path (s @ CHR ''/'' # x) = s"
proof -
  from assms(1) obtain y ys where y: "rev x = y # ys" by (cases "rev x") simp_all
  with assms(2) have "\<not> IsPathSeparator y" by (metis list.set_intros(1) set_rev)
  with y have "dropWhile IsPathSeparator (rev x @ CHR ''/'' # rev s) = rev x @ CHR ''/'' # rev s"
    by simp
  moreover from assms(2)
  have "dropWhile (\<lambda>c. \<not> IsPathSeparator c) (rev x @ CHR ''/'' # rev s) =
        dropWhile (\<lambda>c. \<not> IsPathSeparator c) (CHR ''/'' # rev s)"
    by (intro dropWhile_append2) simp
  ultimately show ?thesis
    by (simp add: parent_path_def IsPathSeparator_def)
qed

lemma ancestor_path_join:
  "length below = k \<Longrightarrow> \<forall>e \<in> set below. e \<noteq> [] \<and> (\<forall>c \<in> set e. \<not> IsPathSeparator c) \<Longrightarrow>
     ancestor_path k (join_path (xs @ below)) = join_path xs"
proof (induction k arbitrary: below)
  case 0
  then show ?case by simp
next
  case (Suc k)
  then obtain bs b where b: "below = bs @ [b]"
    by (cases below rule: rev_cases) simp_all
  with Suc.prems have clean: "b \<noteq> []" "\<forall>c \<in> set b. \<not> IsPathSeparator c" by simp_all
  have "join_path (xs @ below) = join_path (xs @ bs) @ CHR ''/'' # b"
    using b by (simp add: join_path_def)
  with clean have "parent_path (join_path (xs @ below)) = join_path (xs @ bs)"
    by (simp add: parent_path_snoc)
  moreover from Suc.prems b have "ancestor_path k (join_path (xs @ bs)) = join_path xs"
    by (intro Suc.IH) simp_all
  ultimately show ?case by simp
qed

lemma mkdir_all_at_keeps:
  "mkdir_all_at cs perm n = Inr n' \<Longrightarrow> walk q n = Inr k \<Longrightarrow>
     \<exists>k'. walk q n' = Inr k' \<and> node_mode k' = node_mode k"
proof (induction cs arbitrary: n n' q k)
  case Nil
  then show ?case by (cases n) auto
next
  case (Cons c cs)
  from Cons.prems(1) obtain m es where n: "n = Dir m es"
    by (cases n) simp_all
  show ?case
  proof (cases q)
    case Nil
    with Cons.prems n show ?thesis by (auto split: option.splits sum.splits)
  next
    case q: (Cons d ds)
    with Cons.prems(2) n obtain y where y: "map_of es d = Some y" "walk ds y = Inr k"
      by (auto split: option.splits)
    show ?thesis
    proof (cases "map_of es c")
      case None
      with y have "d \<noteq> c" by auto
      from None Cons.prems(1) n obtain x'
        where "n' = Dir m (es @ [(c, x')])" by (auto split: sum.splits)
      with y q show ?thesis by (simp add: map_add_def)
    next
      case (Some x)
      with Cons.prems(1) n obtain x'
        where x': "mkdir_all_at cs perm x = Inr x'" "n' = Dir m (AList.update c x' es)"
        by (auto split: sum.splits)
      show ?thesis
      proof (cases "d = c")
        case True
        with y Some have "walk ds x = Inr k" by simp
        from Cons.IH [OF x'(1) this] True x'(2) q show ?thesis
          by (simp add: update_conv')
      next
        case False
        with y x'(2) q show ?thesis by (simp add: update_conv')
      qed
    qed
  qed
qed


lemma walk_errors: "walk cs n = Inl e \<Longrightarrow> e = ENOENT \<or> e = ENOTDIR"
proof (induction cs arbitrary: n)
  case Nil
  then show ?case by simp
next
  case (Cons c cs)
  then show ?case by (cases n) (auto split: option.splits)
qed

lemma canonical_path_nonempty:
  assumes "canonical_path p"
  shows "split_path p \<noteq> []" and "p \<noteq> []"
  using assms by (auto simp: canonical_path_def split_path_def)

lemmas sample_tree_defs =
  sample_root_def split_path_def IsPathSeparator_def Mkdir_def Rmdir_def
  os_MkdirAll_def os_Remove_def os_RemoveAll_def os_Lstat_def
  is_dir_def dir_at_def is_file_def is_nonempty_dir_def no_file_on_path_def
  PathExists_def pathExists_def canonical_path_def

text \<open>
  The scenario of the specification: \<^verbatim>\<open>/mnt/data\<close> does not exist, is created, exists,
  is removed without force (it is empty), and does not exist again.
\<close>

lemma scenario_create_then_remove:
  "PathExists (os_Lstat (Dir 0x1ED [])) ''/mnt/data'' = (False, None) \<and>
   Mkdir (Dir 0x1ED []) ''/mnt/data'' =
     (None, Dir 0x1ED [(''mnt'', Dir 0x1ED [(''data'', Dir 0x1ED [])])]) \<and>
   PathExists (os_Lstat (snd (Mkdir (Dir 0x1ED []) ''/mnt/data''))) ''/mnt/data'' = (True, None) \<and>
   Rmdir (snd (Mkdir (Dir 0x1ED []) ''/mnt/data'')) ''/mnt/data'' False =
     (None, Dir 0x1ED [(''mnt'', Dir 0x1ED [])]) \<and>
   PathExists (os_Lstat (Dir 0x1ED [(''mnt'', Dir 0x1ED [])])) ''/mnt/data'' = (False, None)"
  by (simp add: sample_tree_defs)

text \<open>
  C5, as stated (without force, \<^verbatim>\<open>Rmdir\<close> fails when the path is a file), fails:
  \<^verbatim>\<open>os.Remove\<close> removes a regular file, and \<^verbatim>\<open>Rmdir\<close> returns no error.
\<close>

theorem C5_Rmdir_file_counterexample:
  "canonical_path ''/mnt/notes.txt'' \<and>
   is_file sample_root ''/mnt/notes.txt'' \<and>
   fst (Rmdir sample_root ''/mnt/notes.txt'' False) = None \<and>
   PathExists (os_Lstat (snd (Rmdir sample_root ''/mnt/notes.txt'' False))) ''/mnt/notes.txt'' =
     (False, None)"
  by (simp add: sample_tree_defs)

text \<open>
  C5, amended. \<^verbatim>\<open>Rmdir\<close> with \<^verbatim>\<open>force=false\<close> fails with an error, and changes nothing,
  when the target directory is non-empty; \<^verbatim>\<open>Rmdir\<close> with \<^verbatim>\<open>force=true\<close> on the same
  directory succeeds, deleting it with everything below it and leaving the path absent.
  On a path that is a regular file, \<^verbatim>\<open>Rmdir\<close> with \<^verbatim>\<open>force=false\<close> removes the file
  and succeeds. (Paths in canonical form, on the reference host.)
\<close>

theorem C5_Rmdir_plain_and_forced:
  assumes "canonical_path p"
  shows
  "(is_nonempty_dir root p \<longrightarrow>
      Rmdir root p False = (Some (PathError ''remove'' p ENOTEMPTY), root) \<and>
      fst (Rmdir root p True) = None \<and>
      PathExists (os_Lstat (snd (Rmdir root p True))) p = (False, None) \<and>
      (\<forall>q. canonical_path q \<and> prefix (split_path p) (split_path q) \<longrightarrow>
         PathExists (os_Lstat (snd (Rmdir root p True))) q = (False, None))) \<and>
   (is_file root p \<longrightarrow>
      fst (Rmdir root p False) = None \<and>
      PathExists (os_Lstat (snd (Rmdir root p False))) p = (False, None))"
proof (intro conjI impI)
  note p = canonical_path_nonempty [OF assms]
  assume a: "is_nonempty_dir root p"
  then obtain m es where w: "walk (split_path p) root = Inr (Dir m es)" "es \<noteq> []"
    by (auto simp: is_nonempty_dir_def split: sum.splits node.splits)
  from w(2) have "\<not> removable (Dir m es)" by simp
  with p(1) w(1) have "remove_at (split_path p) root = Inl ENOTEMPTY"
    by (intro remove_at_refused)
  with p show "Rmdir root p False = (Some (PathError ''remove'' p ENOTEMPTY), root)"
    by (simp add: Rmdir_def os_Remove_def)
  from remove_all_at_done [OF p(1) w(1)] obtain root'
    where r: "remove_all_at (split_path p) root = Inr root'"
      "walk (split_path p) root' = Inl ENOENT"
    by blast
  with p have f: "Rmdir root p True = (None, root')"
    by (simp add: Rmdir_def os_RemoveAll_def)
  then show "fst (Rmdir root p True) = None" by simp
  from f r(2) show "PathExists (os_Lstat (snd (Rmdir root p True))) p = (False, None)"
    by (simp add: absent_below)
  from f r(2) show "\<forall>q. canonical_path q \<and> prefix (split_path p) (split_path q) \<longrightarrow>
      PathExists (os_Lstat (snd (Rmdir root p True))) q = (False, None)"
    by (simp add: absent_below)
next
  note p = canonical_path_nonempty [OF assms]
  assume a: "is_file root p"
  then obtain m where w: "walk (split_path p) root = Inr (File m)"
    by (auto simp: is_file_def split: sum.splits node.splits)
  have "removable (File m)" by simp
  from remove_at_done [OF p(1) w this] obtain root'
    where r: "remove_at (split_path p) root = Inr root'"
      "walk (split_path p) root' = Inl ENOENT"
    by blast
  with p have f: "Rmdir root p False = (None, root')"
    by (simp add: Rmdir_def os_Remove_def)
  then show "fst (Rmdir root p False) = None" by simp
  from f r(2) show "PathExists (os_Lstat (snd (Rmdir root p False))) p = (False, None)"
    by (simp add: absent_below)
qed

theorem C5_Rmdir_plain_and_forced_witness:
  "canonical_path ''/mnt/vol'' \<and> is_nonempty_dir sample_root ''/mnt/vol'' \<and>
   Rmdir sample_root ''/mnt/vol'' False =
     (Some (PathError ''remove'' ''/mnt/vol'' ENOTEMPTY), sample_root) \<and>
   fst (Rmdir sample_root ''/mnt/vol'' True) = None \<and>
   PathExists (os_Lstat (snd (Rmdir sample_root ''/mnt/vol'' True))) ''/mnt/vol'' = (False, None) \<and>
   PathExists (os_Lstat (snd (Rmdir sample_root ''/mnt/vol'' True))) ''/mnt/vol/sub/b'' =
     (False, None) \<and>
   canonical_path ''/mnt/vol/a'' \<and> is_file sample_root ''/mnt/vol/a'' \<and>
   fst (Rmdir sample_root ''/mnt/vol/a'' False) = None"
proof -
  have p: "canonical_path ''/mnt/vol''" "canonical_path ''/mnt/vol/a''"
    by (simp_all add: sample_tree_defs)
  have a: "is_nonempty_dir sample_root ''/mnt/vol''"
    by (simp add: sample_tree_defs)
  have b: "canonical_path ''/mnt/vol/sub/b'' \<and>
           prefix (split_path ''/mnt/vol'') (split_path ''/mnt/vol/sub/b'')"
    by (simp add: sample_tree_defs)
  have c: "is_file sample_root ''/mnt/vol/a''"
    by (simp add: sample_tree_defs)
  from p a b c
    C5_Rmdir_plain_and_forced [OF p(1), of sample_root]
    C5_Rmdir_plain_and_forced [OF p(2), of sample_root]
  show ?thesis by blast
qed

text \<open>
  C8, as stated (for every path \<^verbatim>\<open>Mkdir\<close> succeeds, silently if the path is already
  present), fails: on a path that is present as a regular file \<^verbatim>\<open>os.MkdirAll\<close> and
  with it \<^verbatim>\<open>Mkdir\<close> return an error.
\<close>

theorem C8_Mkdir_on_file_counterexample:
  "canonical_path ''/mnt/notes.txt'' \<and>
   PathExists (os_Lstat sample_root) ''/mnt/notes.txt'' = (True, None) \<and>
   is_file sample_root ''/mnt/notes.txt'' \<and>
   Mkdir sample_root ''/mnt/notes.txt'' =
     (Some (PathError ''mkdir'' ''/mnt/notes.txt'' ENOTDIR), sample_root)"
  by (simp add: sample_tree_defs)

text \<open>
  C8, amended. \<^verbatim>\<open>Mkdir\<close> is idempotent: for every path none of whose present elements
  is a regular file, it creates the path and all missing ancestors as directories; it
  succeeds without changing anything if the path is already a directory; and whenever a
  call succeeds, a second call on the same path succeeds too and leaves the directory
  structure identical. On a path that is, or runs through, a regular file it fails with
  an error that names that file, and creates nothing. (Paths in canonical form, on the
  reference host.)
\<close>

theorem C8_Mkdir_idempotent:
  assumes "canonical_path p"
  shows
  "(no_file_on_path root p \<longrightarrow>
      fst (Mkdir root p) = None \<and>
      is_dir (snd (Mkdir root p)) p \<and>
      list_all (dir_at (snd (Mkdir root p))) (prefixes (split_path p))) \<and>
   (is_dir root p \<longrightarrow> Mkdir root p = (None, root)) \<and>
   (fst (Mkdir root p) = None \<longrightarrow>
      Mkdir (snd (Mkdir root p)) p = (None, snd (Mkdir root p))) \<and>
   (\<not> no_file_on_path root p \<longrightarrow>
      fst (Mkdir root p) \<noteq> None \<and> snd (Mkdir root p) = root \<and>
      (\<exists>xs below. split_path p = xs @ below \<and> file_at root xs \<and>
         Mkdir root p = (Some (PathError ''mkdir'' (join_path xs) ENOTDIR), root))) \<and>
   (is_file root p \<longrightarrow> Mkdir root p = (Some (PathError ''mkdir'' p ENOTDIR), root))"
proof (intro conjI impI)
  note p = canonical_path_nonempty [OF assms]
  assume a: "no_file_on_path root p"
  then have "walk (split_path p) root = Inl ENOENT \<or>
             (\<exists>m es. walk (split_path p) root = Inr (Dir m es))"
    by (auto simp: no_file_on_path_def split: sum.splits node.splits)
  from mkdir_all_at_creates [OF this, of "0x1ED"] obtain root' m' es'
    where r: "mkdir_all_at (split_path p) 0x1ED root = Inr root'"
      "walk (split_path p) root' = Inr (Dir m' es')"
    by blast
  with p have f: "Mkdir root p = (None, root')"
    by (simp add: Mkdir_def os_MkdirAll_def)
  then show "fst (Mkdir root p) = None" by simp
  from f r(2) show "is_dir (snd (Mkdir root p)) p"
    by (simp add: is_dir_def dir_at_def)
  have "dir_at root' q" if "q \<in> set (prefixes (split_path p))" for q
  proof -
    from that obtain ys where ys: "split_path p = q @ ys"
      by (auto simp: prefix_def)
    show ?thesis
    proof (cases "ys = []")
      case True
      with ys r(2) show ?thesis by (simp add: dir_at_def)
    next
      case False
      from r(2) ys have "walk (q @ ys) root' = Inr (Dir m' es')" by simp
      from walk_prefix_dir [OF this False] show ?thesis by (auto simp: dir_at_def)
    qed
  qed
  with f show "list_all (dir_at (snd (Mkdir root p))) (prefixes (split_path p))"
    by (simp add: list_all_iff)
next
  note p = canonical_path_nonempty [OF assms]
  assume "is_dir root p"
  then obtain m es where "walk (split_path p) root = Inr (Dir m es)"
    by (auto simp: is_dir_def dir_at_def split: sum.splits node.splits)
  with p show "Mkdir root p = (None, root)"
    by (simp add: Mkdir_def os_MkdirAll_def mkdir_all_at_present)
next
  note p = canonical_path_nonempty [OF assms]
  assume a: "fst (Mkdir root p) = None"
  with p obtain root' where r: "mkdir_all_at (split_path p) 0x1ED root = Inr root'"
    by (cases "mkdir_all_at (split_path p) 0x1ED root")
       (auto simp: Mkdir_def os_MkdirAll_def)
  from mkdir_all_at_again [OF r] r p
  show "Mkdir (snd (Mkdir root p)) p = (None, snd (Mkdir root p))"
    by (simp add: Mkdir_def os_MkdirAll_def)
next
  note p = canonical_path_nonempty [OF assms]
  assume a: "\<not> no_file_on_path root p"
  then have "walk (split_path p) root = Inl ENOTDIR \<or>
             (\<exists>m. walk (split_path p) root = Inr (File m))"
    by (auto simp: no_file_on_path_def split: sum.splits node.splits dest: walk_errors)
  from mkdir_all_at_blocked [OF this, of "0x1ED"] obtain xs below m
    where r: "split_path p = xs @ below" "walk xs root = Inr (File m)"
      "mkdir_all_at (split_path p) 0x1ED root = Inl (ENOTDIR, length below)"
    by blast
  have "\<forall>e \<in> set below. e \<noteq> [] \<and> (\<forall>c \<in> set e. \<not> IsPathSeparator c)"
  proof
    fix e assume "e \<in> set below"
    with r(1) have "e \<in> set (split_path p)" by simp
    then show "e \<noteq> [] \<and> (\<forall>c \<in> set e. \<not> IsPathSeparator c)"
      by (rule split_path_clean)
  qed
  then have "ancestor_path (length below) (join_path (xs @ below)) = join_path xs"
    by (intro ancestor_path_join) simp_all
  moreover from assms r(1) have "p = join_path (xs @ below)"
    by (simp add: canonical_path_def join_path_def)
  ultimately have "ancestor_path (length below) p = join_path xs" by simp
  with r(3) p
  have f: "Mkdir root p = (Some (PathError ''mkdir'' (join_path xs) ENOTDIR), root)"
    by (simp add: Mkdir_def os_MkdirAll_def)
  from f show "fst (Mkdir root p) \<noteq> None" by simp
  from f show "snd (Mkdir root p) = root" by simp
  from f r(1) r(2)
  show "\<exists>xs below. split_path p = xs @ below \<and> file_at root xs \<and>
          Mkdir root p = (Some (PathError ''mkdir'' (join_path xs) ENOTDIR), root)"
    by (auto simp: file_at_def)
next
  note p = canonical_path_nonempty [OF assms]
  assume "is_file root p"
  then obtain m where "walk (split_path p) root = Inr (File m)"
    by (auto simp: is_file_def split: sum.splits node.splits)
  from mkdir_all_at_file [OF this, of "0x1ED"] p
  show "Mkdir root p = (Some (PathError ''mkdir'' p ENOTDIR), root)"
    by (simp add: Mkdir_def os_MkdirAll_def)
qed

theorem C8_Mkdir_idempotent_witness:
  "canonical_path ''/mnt/data/x'' \<and> no_file_on_path sample_root ''/mnt/data/x'' \<and>
   fst (Mkdir sample_root ''/mnt/data/x'') = None \<and>
   is_dir (snd (Mkdir sample_root ''/mnt/data/x'')) ''/mnt/data/x'' \<and>
   Mkdir (snd (Mkdir sample_root ''/mnt/data/x'')) ''/mnt/data/x'' =
     (None, snd (Mkdir sample_root ''/mnt/data/x'')) \<and>
   canonical_path ''/mnt/vol'' \<and> is_dir sample_root ''/mnt/vol'' \<and>
   Mkdir sample_root ''/mnt/vol'' = (None, sample_root) \<and>
   canonical_path ''/mnt/notes.txt/x'' \<and> \<not> no_file_on_path sample_root ''/mnt/notes.txt/x'' \<and>
   fst (Mkdir sample_root ''/mnt/notes.txt/x'') \<noteq> None \<and>
   snd (Mkdir sample_root ''/mnt/notes.txt/x'') = sample_root \<and>
   Mkdir sample_root ''/mnt/notes.txt/x'' =
     (Some (PathError ''mkdir'' ''/mnt/notes.txt'' ENOTDIR), sample_root) \<and>
   canonical_path ''/mnt/notes.txt'' \<and> is_file sample_root ''/mnt/notes.txt'' \<and>
   Mkdir sample_root ''/mnt/notes.txt'' =
     (Some (PathError ''mkdir'' ''/mnt/notes.txt'' ENOTDIR), sample_root)"
proof -
  have p: "canonical_path ''/mnt/data/x''" "canonical_path ''/mnt/vol''"
    "canonical_path ''/mnt/notes.txt/x''" "canonical_path ''/mnt/notes.txt''"
    by (simp_all add: sample_tree_defs)
  have a: "no_file_on_path sample_root ''/mnt/data/x''"
    by (simp add: sample_tree_defs)
  have b: "is_dir sample_root ''/mnt/vol''"
    by (simp add: sample_tree_defs)
  have c: "\<not> no_file_on_path sample_root ''/mnt/notes.txt/x''"
    by (simp add: sample_tree_defs)
  have d: "is_file sample_root ''/mnt/notes.txt''"
    by (simp add: sample_tree_defs)
  have e: "Mkdir sample_root ''/mnt/notes.txt/x'' =
             (Some (PathError ''mkdir'' ''/mnt/notes.txt'' ENOTDIR), sample_root)"
    by (simp add: sample_tree_defs parent_path_def)
  from p a b c d e
    C8_Mkdir_idempotent [OF p(1), of sample_root]
    C8_Mkdir_idempotent [OF p(2), of sample_root]
    C8_Mkdir_idempotent [OF p(3), of sample_root]
    C8_Mkdir_idempotent [OF p(4), of sample_root]
  show ?thesis by blast
qed


end
